theory Spec2Isabelle
  imports Complex_Main "HOL-Library.Word" "HOL-Library.Multiset"
begin

unbundle bit_operations_syntax

section \<open>Lights and the shadow atlas slot cache (renderer/lights/clusterer.cpp)\<close>

type_synonym u32 = "32 word"

text \<open>
  A positional light lives in the scene; the clusterer refers to it through a raw pointer
  (\<^verbatim>\<open>handles[i]\<close>). Pointers are addresses (\<open>nat\<close>) into a store of light objects, so
  that a write through one handle is seen through every other reference to the same light.
  \<open>'v\<close> is the type of image views, \<open>'t\<close> the type of the per-kind shadow transform
  (\<^verbatim>\<open>mat4\<close> for spots, \<^verbatim>\<open>PointTransform\<close> for points).
\<close>

datatype light_type = Spot | Point

record ('v, 't) positional_light =
  get_type :: light_type
  get_cookie :: u32
  shadow_info :: "('v \<times> 't) option"

type_synonym ('v, 't) light_store = "nat \<Rightarrow> ('v, 't) positional_light"

text \<open>
  Modelled from the spec: \<^verbatim>\<open>set_shadow_info\<close> is declared in lights.hpp, which is not among
  the sources. The spec says reassignment "binds the cached shadow view + transform directly
  onto the light" and that the light-set builder "clears any previously cached shadow-info
  pointer": the light stores the view pointer and the transform it is given;
  \<^verbatim>\<open>set_shadow_info(nullptr, {})\<close> is the cleared binding \<open>None\<close>.
\<close>

definition set_shadow_info ::
  "('v, 't) light_store \<Rightarrow> nat \<Rightarrow> ('v \<times> 't) option \<Rightarrow> ('v, 't) light_store" where
  "set_shadow_info heap h b = heap(h := (heap h)\<lparr>shadow_info := b\<rparr>)"

text \<open>
  The per-kind bookkeeping (\<^verbatim>\<open>spots\<close>, \<^verbatim>\<open>points\<close>): fixed arrays of \<^verbatim>\<open>MaxLights\<close> entries and
  a count. The arrays are lists whose common length is the capacity \<^verbatim>\<open>MaxLights\<close>; the
  declaration of that constant is outside the sources, the spec bounds it by 32 so that a
  light set fits one 32-bit mask. \<open>'i\<close> is the shader-ready light description, \<open>'a\<close> the
  atlas image.
\<close>

record ('i, 't, 'a) light_info =
  lights :: "'i list"
  handles :: "nat list"
  cookie :: "u32 list"
  transforms :: "'t list"
  index_remap :: "nat list"
  count :: nat
  atlas :: "'a option"

definition capacity :: "('i, 't, 'a) light_info \<Rightarrow> nat" where
  "capacity ty = length (cookie ty)"

definition well_formed :: "('i, 't, 'a) light_info \<Rightarrow> bool" where
  "well_formed ty \<longleftrightarrow>
     length (lights ty) = capacity ty \<and> length (handles ty) = capacity ty \<and>
     length (transforms ty) = capacity ty \<and> length (index_remap ty) = capacity ty \<and>
     count ty \<le> capacity ty \<and> capacity ty \<le> 32"

text \<open>\<^verbatim>\<open>std::find_if\<close> over an array, as the distance from \<^verbatim>\<open>begin\<close>; \<open>None\<close> is \<^verbatim>\<open>end\<close>.\<close>

fun find_if :: "('a \<Rightarrow> bool) \<Rightarrow> 'a list \<Rightarrow> nat option" where
  "find_if P [] = None"
| "find_if P (x # xs) = (if P x then Some 0 else map_option Suc (find_if P xs))"

definition swap_at :: "nat \<Rightarrow> nat \<Rightarrow> 'a list \<Rightarrow> 'a list" where
  "swap_at i j xs = xs[i := xs ! j, j := xs ! i]"

text \<open>The three \<^verbatim>\<open>swap\<close> calls that move the bookkeeping of slot \<open>index\<close> to slot \<open>i\<close>.\<close>

definition swap_slots :: "nat \<Rightarrow> nat \<Rightarrow> ('i, 't, 'a) light_info \<Rightarrow> ('i, 't, 'a) light_info" where
  "swap_slots i index ty =
     ty\<lparr>cookie := swap_at i index (cookie ty),
        transforms := swap_at i index (transforms ty),
        index_remap := swap_at i index (index_remap ty)\<rparr>"

text \<open>
  The ways in which the modelled code fails: a write past the end of a fixed-size array, and
  a read through an empty atlas handle.
\<close>

datatype fault = ArrayOverflow | NullAtlas

text \<open>
  The state of one run of \<^verbatim>\<open>reassign_indices\<close>: the light objects, the bookkeeping and
  \<^verbatim>\<open>partial_mask\<close>. \<open>view_of a\<close> stands for the value of \<^verbatim>\<open>&type.atlas->get_view()\<close> when the
  handle \<^verbatim>\<open>type.atlas\<close> holds the image \<open>a\<close>; it is fixed by the image class outside the
  sources. When the handle is empty the expression reads through a null pointer: the state
  records this in \<open>failure\<close>, and no binding is made at that index. \<open>failure\<close> is never reset,
  so a run is one that the code completes exactly when \<open>failure\<close> is \<open>None\<close> at the end; the
  bookkeeping that the loop would do at the other indices is still described.
\<close>

record ('i, 't, 'a, 'v) reassign_state =
  heap :: "('v, 't) light_store"
  info :: "('i, 't, 'a) light_info"
  partial_mask :: u32
  failure :: "fault option"

definition inherit_slot :: "nat \<Rightarrow> u32 \<Rightarrow> ('i, 't, 'a) light_info \<Rightarrow> ('i, 't, 'a) light_info" where
  "inherit_slot i c ty =
     (case find_if (\<lambda>ck. ck = c) (cookie ty) of
        Some index \<Rightarrow> if i \<noteq> index then swap_slots i index ty else ty
      | None \<Rightarrow> ty)"

definition unused_slot :: "nat \<Rightarrow> u32 \<Rightarrow> ('i, 't, 'a) light_info \<Rightarrow> ('i, 't, 'a) light_info" where
  "unused_slot i c ty =
     (if c \<noteq> cookie ty ! i \<and> cookie ty ! i \<noteq> 0 then
        (case find_if (\<lambda>ck. ck = 0) (cookie ty) of
           Some index \<Rightarrow> if i \<noteq> index then swap_slots i index ty else ty
         | None \<Rightarrow> ty)
      else ty)"

text \<open>The body of the loop for index \<open>i\<close>.\<close>

definition reassign_step ::
  "('a \<Rightarrow> 'v) \<Rightarrow> nat \<Rightarrow> ('i, 't, 'a, 'v) reassign_state \<Rightarrow> ('i, 't, 'a, 'v) reassign_state" where
  "reassign_step view_of i s =
     (let h = handles (info s) ! i;
          c = get_cookie (heap s h);
          ty1 = inherit_slot i c (info s);
          ty2 = unused_slot i c ty1;
          s' = (if c \<noteq> cookie ty2 ! i
                then s\<lparr>partial_mask := partial_mask s OR push_bit i 1\<rparr>
                else (case atlas ty2 of
                        None \<Rightarrow> s\<lparr>failure := Some NullAtlas\<rparr>
                      | Some a \<Rightarrow>
                          s\<lparr>heap := set_shadow_info (heap s) h
                                      (Some (view_of a, transforms ty2 ! i))\<rparr>))
      in s'\<lparr>info := ty2\<lparr>cookie := (cookie ty2)[i := get_cookie (heap s' h)]\<rparr>\<rparr>)"

function reassign_loop ::
  "('a \<Rightarrow> 'v) \<Rightarrow> nat \<Rightarrow> ('i, 't, 'a, 'v) reassign_state \<Rightarrow> ('i, 't, 'a, 'v) reassign_state" where
  "reassign_loop view_of i s =
     (if i < count (info s) then reassign_loop view_of (Suc i) (reassign_step view_of i s) else s)"
  by pat_completeness auto
termination
  by (relation "measure (\<lambda>(view_of, i, s). count (info s) - i)")
    (auto simp: reassign_step_def Let_def inherit_slot_def unused_slot_def swap_slots_def
          split: option.splits)

text \<open>\<^verbatim>\<open>reassign_indices(type)\<close>: the returned mask and the mutated objects.\<close>

definition reassign_indices ::
  "('a \<Rightarrow> 'v) \<Rightarrow> ('v, 't) light_store \<Rightarrow> ('i, 't, 'a) light_info
    \<Rightarrow> ('i, 't, 'a, 'v) reassign_state" where
  "reassign_indices view_of hp ty =
     reassign_loop view_of 0 \<lparr>heap = hp, info = ty, partial_mask = 0, failure = None\<rparr>"


text \<open>
  The head of \<^verbatim>\<open>render_atlas_point\<close> and of \<^verbatim>\<open>render_atlas_spot\<close> (the two are the same up
  to the kind): reassignment, the force-all-dirty override, and the early return when nothing
  is dirty. The result is the state left by reassignment with the dirty mask that shadow
  rendering uses, and whether the function returned before rendering.
\<close>

definition render_atlas_mask ::
  "bool \<Rightarrow> ('a \<Rightarrow> 'v) \<Rightarrow> ('v, 't) light_store \<Rightarrow> ('i, 't, 'a) light_info
    \<Rightarrow> ('i, 't, 'a, 'v) reassign_state \<times> bool" where
  "render_atlas_mask force_update_shadows view_of hp ty =
     (let s = reassign_indices view_of hp ty;
          s' = (if atlas (info s) = None \<or> force_update_shadows
                then s\<lparr>partial_mask := NOT 0\<rparr> else s)
      in (s', partial_mask s' = 0 \<and> atlas (info s') \<noteq> None \<and> \<not> force_update_shadows))"

subsection \<open>Notions used to state the properties of reassignment\<close>


text \<open>The run of the loop over the first \<open>n\<close> indices.\<close>

definition reassign_upto ::
  "('a \<Rightarrow> 'v) \<Rightarrow> nat \<Rightarrow> ('i, 't, 'a, 'v) reassign_state \<Rightarrow> ('i, 't, 'a, 'v) reassign_state" where
  "reassign_upto view_of n s = fold (reassign_step view_of) [0..<n] s"

text \<open>The cookie table after one step, as a function of the table before.\<close>

definition step_cookie :: "nat \<Rightarrow> u32 \<Rightarrow> u32 list \<Rightarrow> u32 list" where
  "step_cookie i c tab =
     (case find_if (\<lambda>ck. ck = c) tab of
        Some j \<Rightarrow> swap_at i j tab
      | None \<Rightarrow>
          (if tab ! i \<noteq> 0 then
             (case find_if (\<lambda>ck. ck = 0) tab of
                Some z \<Rightarrow> (swap_at i z tab)[i := c]
              | None \<Rightarrow> tab[i := c])
           else tab[i := c]))"



subsection \<open>Concrete atlas states\<close>

text \<open>A store in which the light at address \<open>h\<close> carries cookie \<open>h\<close> and no shadow binding.\<close>

definition store_by_cookie :: "(unit, nat) light_store" where
  "store_by_cookie = (\<lambda>h. \<lparr>get_type = Point, get_cookie = of_nat h, shadow_info = None\<rparr>)"


text \<open>The same two lights, cached in other slots than the ones their indices name.\<close>

definition two_displaced_lights :: "(unit, nat, unit) light_info" where
  "two_displaced_lights =
     \<lparr>lights = [(), (), (), ()], handles = [5, 7, 0, 0], cookie = [7, 9, 0, 5],
      transforms = [10, 11, 12, 13], index_remap = [0, 1, 2, 3], count = 2, atlas = Some ()\<rparr>"

text \<open>
  The first frame with shadows: no slot has been used and the atlas image does not exist.
\<close>

definition first_frame :: "(unit, nat, unit) light_info" where
  "first_frame =
     \<lparr>lights = [(), (), (), ()], handles = [5, 7, 0, 0], cookie = [0, 0, 0, 0],
      transforms = [10, 11, 12, 13], index_remap = [0, 1, 2, 3], count = 2, atlas = None\<rparr>"


section \<open>The light-set builder (LightClusterer::refresh) and the scene's gathering\<close>

text \<open>
  An entity of the component group the clusterer iterates: the light it carries (an address
  in the store), its world-space bounding box and its world transform. The frustum test and
  the conversion to shader parameters are computed on floating-point geometry outside this
  file; they are the parameters \<open>intersects\<close> and \<open>get_shader_info\<close>.
\<close>

record ('b, 'w) light_entity =
  light :: nat
  world_aabb :: 'b
  world_transform :: 'w

text \<open>
  The part of the clusterer that the gathering loop reads and writes. Spot and point lights
  share the store, so \<open>'t\<close> stands for either kind's shadow transform.
\<close>

record ('i, 't, 'a, 'v) clusterer =
  points :: "('i, 't, 'a) light_info"
  spots :: "('i, 't, 'a) light_info"
  max_spot_lights :: nat
  max_point_lights :: nat
  light_objects :: "('v, 't) light_store"

text \<open>
  \<^verbatim>\<open>ty.lights[ty.count] = li; ty.handles[ty.count] = h; ty.count++\<close>. The arrays have
  \<^verbatim>\<open>MaxLights\<close> entries; a write at or beyond that index is outside the array.
\<close>

definition push_light ::
  "'i \<Rightarrow> nat \<Rightarrow> ('i, 't, 'a) light_info \<Rightarrow> fault + ('i, 't, 'a) light_info" where
  "push_light li h ty =
     (if count ty < capacity ty
      then Inr (ty\<lparr>lights := (lights ty)[count ty := li],
                   handles := (handles ty)[count ty := h],
                   count := Suc (count ty)\<rparr>)
      else Inl ArrayOverflow)"

text \<open>The body of the loop over the scene's lights, for one entity.\<close>

definition refresh_light ::
  "('b \<Rightarrow> bool) \<Rightarrow> (('v, 't) positional_light \<Rightarrow> 'w \<Rightarrow> 'i) \<Rightarrow> ('b, 'w) light_entity
    \<Rightarrow> ('i, 't, 'a, 'v) clusterer \<Rightarrow> fault + ('i, 't, 'a, 'v) clusterer" where
  "refresh_light intersects get_shader_info e cl =
     (if \<not> intersects (world_aabb e) then Inr cl
      else
        (case get_type (light_objects cl (light e)) of
           Spot \<Rightarrow>
             (let cl1 = cl\<lparr>light_objects := set_shadow_info (light_objects cl) (light e) None\<rparr>
              in if count (spots cl1) < max_spot_lights cl1
                 then (case push_light
                              (get_shader_info (light_objects cl1 (light e)) (world_transform e))
                              (light e) (spots cl1) of
                         Inl f \<Rightarrow> Inl f
                       | Inr sp \<Rightarrow> Inr (cl1\<lparr>spots := sp\<rparr>))
                 else Inr cl1)
         | Point \<Rightarrow>
             (let cl1 = cl\<lparr>light_objects := set_shadow_info (light_objects cl) (light e) None\<rparr>
              in if count (points cl1) < max_point_lights cl1
                 then (case push_light
                              (get_shader_info (light_objects cl1 (light e)) (world_transform e))
                              (light e) (points cl1) of
                         Inl f \<Rightarrow> Inl f
                       | Inr pt \<Rightarrow> Inr (cl1\<lparr>points := pt\<rparr>))
                 else Inr cl1)))"

fun refresh_lights ::
  "('b \<Rightarrow> bool) \<Rightarrow> (('v, 't) positional_light \<Rightarrow> 'w \<Rightarrow> 'i) \<Rightarrow> ('b, 'w) light_entity list
    \<Rightarrow> ('i, 't, 'a, 'v) clusterer \<Rightarrow> fault + ('i, 't, 'a, 'v) clusterer" where
  "refresh_lights intersects get_shader_info [] cl = Inr cl"
| "refresh_lights intersects get_shader_info (e # es) cl =
     (case refresh_light intersects get_shader_info e cl of
        Inl f \<Rightarrow> Inl f
      | Inr cl' \<Rightarrow> refresh_lights intersects get_shader_info es cl')"

text \<open>
  The head of \<^verbatim>\<open>LightClusterer::refresh\<close>: both counts are reset and the scene's lights are
  gathered in iteration order.
\<close>

definition refresh ::
  "('b \<Rightarrow> bool) \<Rightarrow> (('v, 't) positional_light \<Rightarrow> 'w \<Rightarrow> 'i) \<Rightarrow> ('b, 'w) light_entity list
    \<Rightarrow> ('i, 't, 'a, 'v) clusterer \<Rightarrow> fault + ('i, 't, 'a, 'v) clusterer" where
  "refresh intersects get_shader_info es cl =
     refresh_lights intersects get_shader_info es
       (cl\<lparr>points := (points cl)\<lparr>count := 0\<rparr>, spots := (spots cl)\<lparr>count := 0\<rparr>\<rparr>)"

text \<open>The frustum-visible lights of one kind, in scene-iteration order.\<close>

definition visible_lights ::
  "('b \<Rightarrow> bool) \<Rightarrow> ('v, 't) light_store \<Rightarrow> light_type \<Rightarrow> ('b, 'w) light_entity list
    \<Rightarrow> ('b, 'w) light_entity list" where
  "visible_lights intersects hp k es =
     filter (\<lambda>e. intersects (world_aabb e) \<and> get_type (hp (light e)) = k) es"

text \<open>The live part of an active array.\<close>

definition active_handles :: "('i, 't, 'a) light_info \<Rightarrow> nat list" where
  "active_handles ty = take (count ty) (handles ty)"

definition active_lights :: "('i, 't, 'a) light_info \<Rightarrow> 'i list" where
  "active_lights ty = take (count ty) (lights ty)"

text \<open>What the loop maintains, for one kind.\<close>

definition gathered ::
  "nat \<Rightarrow> ('i, 't, 'a) light_info \<Rightarrow> ('i, 't, 'a) light_info \<Rightarrow> nat list \<Rightarrow> 'i list \<Rightarrow> bool" where
  "gathered cap ty0 ty hs ls \<longleftrightarrow>
     count ty = min cap (length hs) \<and>
     take (count ty) (handles ty) = take cap hs \<and>
     take (count ty) (lights ty) = take cap ls \<and>
     length (handles ty) = length (handles ty0) \<and>
     length (lights ty) = length (lights ty0) \<and>
     capacity ty = capacity ty0"

text \<open>The store after the loop: every frustum-visible light is cleared, nothing else changes.\<close>

definition cleared ::
  "('b \<Rightarrow> bool) \<Rightarrow> ('b, 'w) light_entity list \<Rightarrow> ('v, 't) light_store \<Rightarrow> ('v, 't) light_store" where
  "cleared intersects es hp =
     (\<lambda>h. if h \<in> light ` {e \<in> set es. intersects (world_aabb e)}
          then (hp h)\<lparr>shadow_info := None\<rparr> else hp h)"

definition shader_info_of ::
  "(('v, 't) positional_light \<Rightarrow> 'w \<Rightarrow> 'i) \<Rightarrow> ('v, 't) light_store \<Rightarrow> ('b, 'w) light_entity \<Rightarrow> 'i" where
  "shader_info_of get_shader_info hp e =
     get_shader_info ((hp (light e))\<lparr>shadow_info := None\<rparr>) (world_transform e)"

definition gather_inv ::
  "('b \<Rightarrow> bool) \<Rightarrow> (('v, 't) positional_light \<Rightarrow> 'w \<Rightarrow> 'i) \<Rightarrow> ('b, 'w) light_entity list
    \<Rightarrow> ('i, 't, 'a, 'v) clusterer \<Rightarrow> ('i, 't, 'a, 'v) clusterer \<Rightarrow> bool" where
  "gather_inv intersects get_shader_info es cl cl' \<longleftrightarrow>
     max_point_lights cl' = max_point_lights cl \<and>
     max_spot_lights cl' = max_spot_lights cl \<and>
     light_objects cl' = cleared intersects es (light_objects cl) \<and>
     gathered (max_point_lights cl) (points cl) (points cl')
       (map light (visible_lights intersects (light_objects cl) Point es))
       (map (shader_info_of get_shader_info (light_objects cl))
          (visible_lights intersects (light_objects cl) Point es)) \<and>
     gathered (max_spot_lights cl) (spots cl) (spots cl')
       (map light (visible_lights intersects (light_objects cl) Spot es))
       (map (shader_info_of get_shader_info (light_objects cl))
          (visible_lights intersects (light_objects cl) Spot es))"

text \<open>
  \<^verbatim>\<open>Scene::gather_visible_positional_lights\<close>, the gathering of the deferred path. An
  entity of the scene's positional-light group carries the light, an optional cached
  transform and a bounding box; the list receives \<^verbatim>\<open>{renderable, transform}\<close> pairs, with
  \<^verbatim>\<open>nullptr\<close> for an entity without a transform.
\<close>

record ('b, 'w) scene_light =
  renderable :: nat
  transform :: "'w option"
  aabb :: 'b

type_synonym ('b, 'w) renderable_info = "nat \<times> ('b, 'w) scene_light option"

fun gather_lights ::
  "('b \<Rightarrow> bool) \<Rightarrow> ('v, 't) light_store \<Rightarrow> nat \<Rightarrow> nat \<Rightarrow> ('b, 'w) scene_light list
    \<Rightarrow> nat \<Rightarrow> nat \<Rightarrow> ('b, 'w) renderable_info list \<Rightarrow> ('b, 'w) renderable_info list" where
  "gather_lights intersects_fast hp max_spot max_point [] spot_count point_count list = list"
| "gather_lights intersects_fast hp max_spot max_point (ob # os) spot_count point_count list =
     (case transform ob of
        Some w \<Rightarrow>
          if intersects_fast (aabb ob) then
            (case get_type (hp (renderable ob)) of
               Point \<Rightarrow>
                 if point_count \<ge> max_point
                 then gather_lights intersects_fast hp max_spot max_point os spot_count point_count list
                 else gather_lights intersects_fast hp max_spot max_point os spot_count
                        (Suc point_count) (list @ [(renderable ob, Some ob)])
             | Spot \<Rightarrow>
                 if spot_count \<ge> max_spot
                 then gather_lights intersects_fast hp max_spot max_point os spot_count point_count list
                 else gather_lights intersects_fast hp max_spot max_point os (Suc spot_count)
                        point_count (list @ [(renderable ob, Some ob)]))
          else gather_lights intersects_fast hp max_spot max_point os spot_count point_count list
      | None \<Rightarrow>
          gather_lights intersects_fast hp max_spot max_point os spot_count point_count
            (list @ [(renderable ob, None)]))"

definition gather_visible_positional_lights ::
  "('b \<Rightarrow> bool) \<Rightarrow> ('v, 't) light_store \<Rightarrow> ('b, 'w) scene_light list
    \<Rightarrow> ('b, 'w) renderable_info list \<Rightarrow> nat \<Rightarrow> nat \<Rightarrow> ('b, 'w) renderable_info list" where
  "gather_visible_positional_lights intersects_fast hp positional_lights list max_spot max_point =
     gather_lights intersects_fast hp max_spot max_point positional_lights 0 0 list"

text \<open>The gathered entries of one kind that went through the frustum test.\<close>

definition culled_of_type ::
  "('v, 't) light_store \<Rightarrow> light_type \<Rightarrow> ('b, 'w) renderable_info list \<Rightarrow> ('b, 'w) renderable_info list" where
  "culled_of_type hp k list = filter (\<lambda>r. snd r \<noteq> None \<and> get_type (hp (fst r)) = k) list"

definition visible_scene_lights ::
  "('b \<Rightarrow> bool) \<Rightarrow> ('v, 't) light_store \<Rightarrow> light_type \<Rightarrow> ('b, 'w) scene_light list
    \<Rightarrow> ('b, 'w) scene_light list" where
  "visible_scene_lights intersects_fast hp k os =
     filter (\<lambda>ob. transform ob \<noteq> None \<and> intersects_fast (aabb ob) \<and> get_type (hp (renderable ob)) = k) os"

text \<open>
  A frame with four point lights (addresses 1 to 4, the second outside the frustum) and one
  spot light (address 9), every one still bound to last frame's shadow, and a cap of two
  point lights. The bounding box is reduced to a signed depth, and a box is in the frustum
  when the depth is not negative.
\<close>

definition bound_store :: "(unit, nat) light_store" where
  "bound_store =
     (\<lambda>h. \<lparr>get_type = (if h = 9 then Spot else Point), get_cookie = of_nat h,
            shadow_info = Some ((), h)\<rparr>)"

definition in_front :: "int \<Rightarrow> bool" where
  "in_front depth \<longleftrightarrow> 0 \<le> depth"

definition five_lights :: "(int, unit) light_entity list" where
  "five_lights =
     [\<lparr>light = 1, world_aabb = 5, world_transform = ()\<rparr>,
      \<lparr>light = 9, world_aabb = 2, world_transform = ()\<rparr>,
      \<lparr>light = 2, world_aabb = - 1, world_transform = ()\<rparr>,
      \<lparr>light = 3, world_aabb = 7, world_transform = ()\<rparr>,
      \<lparr>light = 4, world_aabb = 1, world_transform = ()\<rparr>]"

definition four_slots :: "(u32, nat, unit) light_info" where
  "four_slots =
     \<lparr>lights = [0, 0, 0, 0], handles = [0, 0, 0, 0], cookie = [0, 0, 0, 0],
      transforms = [0, 0, 0, 0], index_remap = [0, 1, 2, 3], count = 3, atlas = None\<rparr>"

definition capped_clusterer :: "(u32, nat, unit, unit) clusterer" where
  "capped_clusterer =
     \<lparr>points = four_slots, spots = four_slots, max_spot_lights = 4, max_point_lights = 2,
      light_objects = bound_store\<rparr>"

definition five_scene_lights :: "(int, unit) scene_light list" where
  "five_scene_lights =
     [\<lparr>renderable = 1, transform = Some (), aabb = 5\<rparr>,
      \<lparr>renderable = 9, transform = Some (), aabb = 2\<rparr>,
      \<lparr>renderable = 2, transform = Some (), aabb = - 1\<rparr>,
      \<lparr>renderable = 3, transform = Some (), aabb = 7\<rparr>,
      \<lparr>renderable = 4, transform = Some (), aabb = 1\<rparr>]"

section \<open>The CPU cell-overlap test (LightClusterer::cluster_lights_cpu)\<close>

text \<open>
  Single-precision numbers are taken as real numbers: sums, products and comparisons are
  exact. Vectors and matrices are those of the math library (column-major, a matrix is its
  four columns).
\<close>

type_synonym vec3 = "real \<times> real \<times> real"

type_synonym vec4 = "real \<times> real \<times> real \<times> real"

type_synonym mat4 = "vec4 \<times> vec4 \<times> vec4 \<times> vec4"

type_synonym uvec2 = "u32 \<times> u32"

fun vec3_add :: "vec3 \<Rightarrow> vec3 \<Rightarrow> vec3" where
  "vec3_add (ax, ay, az) (bx, by, bz) = (ax + bx, ay + by, az + bz)"

fun vec3_sub :: "vec3 \<Rightarrow> vec3 \<Rightarrow> vec3" where
  "vec3_sub (ax, ay, az) (bx, by, bz) = (ax - bx, ay - by, az - bz)"

fun vec3_mul :: "vec3 \<Rightarrow> vec3 \<Rightarrow> vec3" where
  "vec3_mul (ax, ay, az) (bx, by, bz) = (ax * bx, ay * by, az * bz)"

fun vec3_scale :: "vec3 \<Rightarrow> real \<Rightarrow> vec3" where
  "vec3_scale (ax, ay, az) k = (ax * k, ay * k, az * k)"

fun dot :: "vec3 \<Rightarrow> vec3 \<Rightarrow> real" where
  "dot (ax, ay, az) (bx, by, bz) = ax * bx + ay * by + az * bz"

fun vec4_scale :: "real \<Rightarrow> vec4 \<Rightarrow> vec4" where
  "vec4_scale k (ax, ay, az, aw) = (k * ax, k * ay, k * az, k * aw)"

fun vec4_add :: "vec4 \<Rightarrow> vec4 \<Rightarrow> vec4" where
  "vec4_add (ax, ay, az, aw) (bx, by, bz, bw) = (ax + bx, ay + by, az + bz, aw + bw)"

fun mat4_mul :: "mat4 \<Rightarrow> vec4 \<Rightarrow> vec4" where
  "mat4_mul (c0, c1, c2, c3) (vx, vy, vz, vw) =
     vec4_add (vec4_add (vec4_scale vx c0) (vec4_scale vy c1))
              (vec4_add (vec4_scale vz c2) (vec4_scale vw c3))"

fun xyz :: "vec4 \<Rightarrow> vec3" where
  "xyz (ax, ay, az, aw) = (ax, ay, az)"

text \<open>
  The per-frame and per-task acceleration data. The arrays have one entry per light index;
  an index is a bit position of a 32-bit mask.
\<close>

record CPUGlobalAccelState =
  inverse_cluster_transform :: mat4
  inv_res :: vec3
  radius :: real
  spot_position :: "nat \<Rightarrow> vec3"
  spot_direction :: "nat \<Rightarrow> vec3"
  spot_size :: "nat \<Rightarrow> real"
  spot_angle_cos :: "nat \<Rightarrow> real"
  spot_angle_sin :: "nat \<Rightarrow> real"
  point_position :: "nat \<Rightarrow> vec3"
  point_size :: "nat \<Rightarrow> real"

record CPULocalAccelState =
  world_scale_factor :: real
  z_bias :: real
  cube_radius :: real

text \<open>
  \<^verbatim>\<open>trailing_zeroes\<close> (bit utilities, outside the sources): the number of zero bits below
  the lowest set bit, 32 for 0.
\<close>

definition trailing_zeroes :: "u32 \<Rightarrow> nat" where
  "trailing_zeroes w = length (takeWhile (\<lambda>n. \<not> bit w n) [0..<32])"

text \<open>\<^verbatim>\<open>pre_mask &= ~(1u << i)\<close>\<close>

definition clear_bit :: "nat \<Rightarrow> u32 \<Rightarrow> u32" where
  "clear_bit i w = w AND NOT (push_bit i 1)"

text \<open>The centre and radius of the bounding sphere of the cell (or block of cells).\<close>

definition cube_center_of ::
  "int \<Rightarrow> int \<Rightarrow> int \<Rightarrow> CPUGlobalAccelState \<Rightarrow> CPULocalAccelState \<Rightarrow> real \<Rightarrow> vec3" where
  "cube_center_of x y z state local_state scale =
     (let view_space =
            vec3_add
              (vec3_mul
                 (vec3_mul (2, 2, 0.5)
                    (vec3_add (real_of_int x, real_of_int y, real_of_int z)
                       (0.5 * scale, 0.5 * scale, 0.5 * scale)))
                 (inv_res state))
              (- 1, - 1, z_bias local_state);
          view_space = vec3_scale view_space (world_scale_factor local_state)
      in xyz (mat4_mul (inverse_cluster_transform state)
                (fst view_space, fst (snd view_space), snd (snd view_space), 1)))"

definition spot_inside :: "CPUGlobalAccelState \<Rightarrow> vec3 \<Rightarrow> real \<Rightarrow> nat \<Rightarrow> bool" where
  "spot_inside state cube_center cube_radius' i =
     (let V = vec3_sub cube_center (spot_position state i);
          V_sq = dot V V;
          V1_len = dot V (spot_direction state i)
      in if V1_len > cube_radius' + spot_size state i then False
         else if - V1_len > cube_radius' then False
         else
           (let V2_len = sqrt (max (V_sq - V1_len * V1_len) 0);
                distance_closest_point =
                  spot_angle_cos state i * V2_len - spot_angle_sin state i * V1_len
            in if distance_closest_point > cube_radius' then False else True))"

definition radial_inside :: "CPUGlobalAccelState \<Rightarrow> vec3 \<Rightarrow> real \<Rightarrow> nat \<Rightarrow> bool" where
  "radial_inside state cube_center cube_radius' i =
     (let cube_center_dist = vec3_sub cube_center (point_position state i);
          radial_dist_sqr = dot cube_center_dist cube_center_dist;
          cutoff = point_size state i + cube_radius';
          cutoff = cutoff * cutoff
      in radial_dist_sqr \<le> cutoff)"


text \<open>
  The two \<^verbatim>\<open>while\<close> loops over the set bits of a pre-mask have the same skeleton: take the
  lowest set bit, clear it, test the light of that index and set its bit in the result when
  the test does not reject it. \<open>inside\<close> is the test of the loop body.
\<close>

function mask_loop :: "(nat \<Rightarrow> bool) \<Rightarrow> u32 \<Rightarrow> u32 \<Rightarrow> u32" where
  "mask_loop inside pre_mask light_mask =
     (if pre_mask = 0 then light_mask
      else
        (let i = trailing_zeroes pre_mask;
             pre_mask = clear_bit i pre_mask
         in if inside i then mask_loop inside pre_mask (light_mask OR push_bit i 1)
            else mask_loop inside pre_mask light_mask))"
  by pat_completeness auto

termination
proof -
  have tz: "trailing_zeroes w < 32 \<and> bit w (trailing_zeroes w)" if "w \<noteq> 0" for w :: u32
  proof -
    let ?tw = "takeWhile (\<lambda>n. \<not> bit w n) [0..<32]"
    from that obtain n where n: "bit w n" by (auto simp: bit_eq_iff)
    then have "n < 32" using bit_imp_le_length[of w n] by simp
    with n have "\<not> (\<forall>x\<in>set [0..<32]. \<not> bit w x)" by auto
    then have "?tw \<noteq> [0..<32]" by (simp only: takeWhile_eq_all_conv not_False_eq_True)
    moreover have "?tw = take (length ?tw) [0..<32]" by (rule takeWhile_eq_take)
    ultimately have "length ?tw \<noteq> length [0..<32]" by (metis take_all order_refl)
    with length_takeWhile_le[of "\<lambda>n. \<not> bit w n" "[0..<32]"]
    have l: "length ?tw < length [0..<32]" by simp
    from nth_length_takeWhile[OF l] l show ?thesis
      by (simp add: trailing_zeroes_def)
  qed
  have dec: "card {n. bit (clear_bit (trailing_zeroes w) w) n} < card {n. bit w n}"
    if "w \<noteq> 0" for w :: u32
  proof -
    have "{n. bit w n} \<subseteq> {..<32}" using bit_imp_le_length[of w] by auto
    then have fin: "finite {n. bit w n}" by (rule finite_subset) simp
    have "{n. bit (clear_bit (trailing_zeroes w) w) n} = {n. bit w n} - {trailing_zeroes w}"
      by (auto simp: clear_bit_def bit_and_iff bit_not_iff bit_exp_iff dest: bit_imp_le_length)
    moreover have "trailing_zeroes w \<in> {n. bit w n}" using tz[OF that] by simp
    then have "card ({n. bit w n} - {trailing_zeroes w}) < card {n. bit w n}"
      by (rule card_Diff1_less[OF fin])
    ultimately show ?thesis by simp
  qed
  show ?thesis
    by (relation "measure (\<lambda>(inside, pre_mask, light_mask). card {n. bit pre_mask n})")
      (auto simp: dec)
qed

text \<open>\<^verbatim>\<open>cluster_lights_cpu\<close>: the spot light_mask and the point light_mask of one cell.\<close>

definition cluster_lights_cpu ::
  "int \<Rightarrow> int \<Rightarrow> int \<Rightarrow> CPUGlobalAccelState \<Rightarrow> CPULocalAccelState \<Rightarrow> real \<Rightarrow> uvec2 \<Rightarrow> uvec2" where
  "cluster_lights_cpu x y z state local_state scale pre_mask =
     (let cube_center = cube_center_of x y z state local_state scale;
          cube_radius' = cube_radius local_state * scale;
          spot_mask = mask_loop (spot_inside state cube_center cube_radius') (fst pre_mask) 0;
          point_mask = mask_loop (radial_inside state cube_center cube_radius') (snd pre_mask) 0
      in (spot_mask, point_mask))"

text \<open>
  The part of \<^verbatim>\<open>build_cluster_cpu\<close> that handles one coarse block at \<open>(cx, cy, cz)\<close>: the
  coarse test with the block's scale, then the fine test of every cell of the block with the
  coarse result as pre-mask. The result lists the masks \<^verbatim>\<open>final_res\<close> of the fine cells (all
  zero when the coarse test leaves no light), which the dense mode stores per cell and the
  list mode expands into index lists. \<open>downsample\<close> is \<^verbatim>\<open>ClusterPrepassDownsample\<close>.
\<close>

definition block_cells :: "int \<Rightarrow> int \<Rightarrow> int \<Rightarrow> int \<Rightarrow> (int \<times> int \<times> int) list" where
  "block_cells cx cy target_x target_y =
     concat (map (\<lambda>sz. concat (map (\<lambda>sy. map (\<lambda>sx. (sx, sy, sz)) [cx..target_x - 1])
                                   [cy..target_y - 1])) [0..3])"

definition cluster_block_cpu ::
  "nat \<Rightarrow> CPUGlobalAccelState \<Rightarrow> CPULocalAccelState \<Rightarrow> uvec2 \<Rightarrow> int \<Rightarrow> int \<Rightarrow> int \<Rightarrow> int \<Rightarrow> int
    \<Rightarrow> ((int \<times> int \<times> int) \<times> uvec2) list" where
  "cluster_block_cpu downsample state local_state pre_mask max_x max_y cx cy cz =
     (let target_x = min (cx + int downsample) max_x;
          target_y = min (cy + int downsample) max_y;
          res = cluster_lights_cpu cx cy cz state local_state (real downsample) pre_mask
      in if fst res = 0 \<and> snd res = 0
         then map (\<lambda>cell. (cell, (0, 0))) (block_cells cx cy target_x target_y)
         else map (\<lambda>(sx, sy, sz).
                     ((sx, sy, sz), cluster_lights_cpu sx sy (sz + cz) state local_state 1 res))
                (block_cells cx cy target_x target_y))"

definition unit_grid :: CPUGlobalAccelState where
  "unit_grid =
     \<lparr>inverse_cluster_transform = ((1, 0, 0, 0), (0, 1, 0, 0), (0, 0, 1, 0), (0, 0, 0, 1)),
      inv_res = (1 / 4, 1 / 4, 1 / 4), radius = 1 / 2,
      spot_position = (\<lambda>i. (0, 0, 0)), spot_direction = (\<lambda>i. (0, 0, 1)),
      spot_size = (\<lambda>i. 1), spot_angle_cos = (\<lambda>i. 1), spot_angle_sin = (\<lambda>i. 0),
      point_position = (\<lambda>i. if i = 0 then (- 3 / 4, - 3 / 4, 1 / 16) else (9 / 4, 13 / 4, 1 / 16)),
      point_size = (\<lambda>i. 1)\<rparr>"

definition first_cascade :: CPULocalAccelState where
  "first_cascade = \<lparr>world_scale_factor = 1, z_bias = 0, cube_radius = 1 / 2\<rparr>"

section \<open>The depth-bin stencil partitioner (renderer/lights/deferred_lights.cpp)\<close>



















section \<open>Properties of slot reassignment\<close>

declare reassign_loop.simps [simp del]

lemma find_if_None: "find_if P xs = None \<longleftrightarrow> (\<forall>x\<in>set xs. \<not> P x)"
  by (induction xs) auto

lemma find_if_Some:
  "find_if P xs = Some j \<longleftrightarrow> j < length xs \<and> P (xs ! j) \<and> (\<forall>k<j. \<not> P (xs ! k))"
proof (induction xs arbitrary: j)
  case Nil
  then show ?case by simp
next
  case (Cons x xs)
  show ?case
  proof (cases "P x")
    case True
    then show ?thesis by (cases j) auto
  next
    case False
    then show ?thesis using Cons.IH
      by (cases j) (auto simp: less_Suc_eq_0_disj)
  qed
qed

lemma length_swap_at [simp]: "length (swap_at i j xs) = length xs"
  by (simp add: swap_at_def)

lemma nth_swap_at:
  "i < length xs \<Longrightarrow> j < length xs \<Longrightarrow> k < length xs \<Longrightarrow>
   swap_at i j xs ! k = (if k = j then xs ! i else if k = i then xs ! j else xs ! k)"
  by (simp add: swap_at_def nth_list_update)

lemma swap_at_same [simp]: "swap_at i i xs = xs"
  by (simp add: swap_at_def)


lemma cookie_swap_slots [simp]: "cookie (swap_slots i j ty) = swap_at i j (cookie ty)"
  by (simp add: swap_slots_def)

lemma reassign_step_info:
  "info (reassign_step view_of i s) =
     (let c = get_cookie (heap s (handles (info s) ! i));
          ty2 = unused_slot i c (inherit_slot i c (info s))
      in ty2\<lparr>cookie := (cookie ty2)[i := c]\<rparr>)"
  by (simp add: reassign_step_def Let_def set_shadow_info_def split: option.splits)

lemma reassign_step_mask:
  "partial_mask (reassign_step view_of i s) =
     (let c = get_cookie (heap s (handles (info s) ! i));
          ty2 = unused_slot i c (inherit_slot i c (info s))
      in if c \<noteq> cookie ty2 ! i then partial_mask s OR push_bit i 1 else partial_mask s)"
  by (simp add: reassign_step_def Let_def split: option.splits)

lemma reassign_step_heap:
  "get_cookie (heap (reassign_step view_of i s) h) = get_cookie (heap s h)"
  "get_type (heap (reassign_step view_of i s) h) = get_type (heap s h)"
  by (simp_all add: reassign_step_def Let_def set_shadow_info_def split: option.splits)



lemma step_cookie_length [simp]: "length (step_cookie i c tab) = length tab"
  by (simp add: step_cookie_def split: option.splits)



lemma step_cookie_unchanged:
  assumes "i < length tab" "tab ! i = c" "\<forall>k<i. tab ! k \<noteq> c"
  shows "step_cookie i c tab = tab"
proof -
  from assms have "find_if (\<lambda>ck. ck = c) tab = Some i"
    by (simp add: find_if_Some)
  then show ?thesis by (simp add: step_cookie_def)
qed



lemma reassign_loop_fold:
  "reassign_loop view_of i s = fold (reassign_step view_of) [i..<count (info s)] s"
proof (induction view_of i s rule: reassign_loop.induct)
  case (1 view_of i s)
  show ?case
  proof (cases "i < count (info s)")
    case True
    have c: "count (info (reassign_step view_of i s)) = count (info s)"
      by (simp add: reassign_step_def Let_def inherit_slot_def unused_slot_def swap_slots_def
          split: option.splits)
    from True have "reassign_loop view_of i s = reassign_loop view_of (Suc i) (reassign_step view_of i s)"
      by (simp add: reassign_loop.simps[of view_of i s])
    also have "\<dots> = fold (reassign_step view_of) [Suc i..<count (info s)] (reassign_step view_of i s)"
      using 1[OF True] c by simp
    also have "\<dots> = fold (reassign_step view_of) [i..<count (info s)] s"
      using True by (simp add: upt_rec[of i])
    finally show ?thesis .
  next
    case False
    then show ?thesis by (simp add: reassign_loop.simps[of view_of i s])
  qed
qed

lemma reassign_indices_upto:
  "reassign_indices view_of hp ty =
   reassign_upto view_of (count ty) \<lparr>heap = hp, info = ty, partial_mask = 0, failure = None\<rparr>"
  by (simp add: reassign_indices_def reassign_upto_def reassign_loop_fold)

lemma reassign_upto_0 [simp]: "reassign_upto view_of 0 s = s"
  by (simp add: reassign_upto_def)

lemma reassign_upto_Suc:
  "reassign_upto view_of (Suc n) s = reassign_step view_of n (reassign_upto view_of n s)"
  by (simp add: reassign_upto_def)

lemma step_frame:
  "handles (info (reassign_step view_of i s)) = handles (info s)"
  "count (info (reassign_step view_of i s)) = count (info s)"
  "atlas (info (reassign_step view_of i s)) = atlas (info s)"
  "lights (info (reassign_step view_of i s)) = lights (info s)"
  "get_cookie (heap (reassign_step view_of i s) h) = get_cookie (heap s h)"
  "get_type (heap (reassign_step view_of i s) h) = get_type (heap s h)"
  "length (transforms (info (reassign_step view_of i s))) = length (transforms (info s))"
  "length (index_remap (info (reassign_step view_of i s))) = length (index_remap (info s))"
  "length (cookie (info (reassign_step view_of i s))) = length (cookie (info s))"
  by (simp_all add: reassign_step_info reassign_step_heap Let_def inherit_slot_def
      unused_slot_def swap_slots_def swap_at_def split: option.splits)

lemma upto_frame:
  "handles (info (reassign_upto view_of n s)) = handles (info s)"
  "count (info (reassign_upto view_of n s)) = count (info s)"
  "atlas (info (reassign_upto view_of n s)) = atlas (info s)"
  "lights (info (reassign_upto view_of n s)) = lights (info s)"
  "get_cookie (heap (reassign_upto view_of n s) h) = get_cookie (heap s h)"
  "get_type (heap (reassign_upto view_of n s) h) = get_type (heap s h)"
  "length (transforms (info (reassign_upto view_of n s))) = length (transforms (info s))"
  "length (index_remap (info (reassign_upto view_of n s))) = length (index_remap (info s))"
  "length (cookie (info (reassign_upto view_of n s))) = length (cookie (info s))"
  by (induction n) (simp_all add: reassign_upto_Suc step_frame)

lemma mask_reassign_step:
  assumes "i < length (cookie (info s))"
  shows "partial_mask (reassign_step view_of i s) =
         (if get_cookie (heap s (handles (info s) ! i)) \<in> set (cookie (info s))
          then partial_mask s else partial_mask s OR push_bit i 1)"
proof -
  let ?c = "get_cookie (heap s (handles (info s) ! i))"
  let ?tab = "cookie (info s)"
  show ?thesis
  proof (cases "find_if (\<lambda>ck. ck = ?c) ?tab")
    case None
    then have nin: "\<forall>x\<in>set ?tab. x \<noteq> ?c" by (simp add: find_if_None)
    with assms have ne: "?tab ! i \<noteq> ?c" by (metis nth_mem)
    have z: "swap_at i z ?tab ! i \<in> set ?tab" if "z < length ?tab" for z
      using that assms by (simp add: nth_swap_at)
    from None nin ne assms show ?thesis
      by (auto simp: reassign_step_mask Let_def inherit_slot_def unused_slot_def
          find_if_Some z split: option.splits)
  next
    case (Some j)
    then have j: "j < length ?tab" "?tab ! j = ?c" by (simp_all add: find_if_Some)
    then have "?c \<in> set ?tab" by (metis nth_mem)
    with Some j assms show ?thesis
      by (auto simp: reassign_step_mask Let_def inherit_slot_def unused_slot_def nth_swap_at
          split: option.splits)
  qed
qed


lemma light_cookie_upto:
  "get_cookie (heap (reassign_upto view_of n s) (handles (info (reassign_upto view_of n s)) ! i)) =
   get_cookie (heap s (handles (info s) ! i))"
  by (simp add: upto_frame)

















lemma mask_upto:
  assumes "n \<le> length (cookie (info s))" "n \<le> 32"
  shows "bit (partial_mask (reassign_upto view_of n s)) m \<longleftrightarrow>
         bit (partial_mask s) m \<or>
         (m < n \<and> get_cookie (heap s (handles (info s) ! m))
                    \<notin> set (cookie (info (reassign_upto view_of m s))))"
  using assms
proof (induction n)
  case 0
  then show ?case by simp
next
  case (Suc n)
  let ?s = "reassign_upto view_of n s"
  from Suc.prems have len: "n < length (cookie (info ?s))" by (simp add: upto_frame)
  from Suc have IH: "bit (partial_mask ?s) m \<longleftrightarrow>
         bit (partial_mask s) m \<or>
         (m < n \<and> get_cookie (heap s (handles (info s) ! m))
                    \<notin> set (cookie (info (reassign_upto view_of m s))))" by simp
  have b: "bit (push_bit n 1 :: u32) m \<longleftrightarrow> m = n" using Suc.prems(2)
    by (auto simp: bit_exp_iff)
  show ?case
    unfolding reassign_upto_Suc mask_reassign_step[OF len] light_cookie_upto
    using IH b by (auto simp: bit_or_iff less_Suc_eq)
qed
















lemma step_failure:
  assumes "i < length (cookie (info s))"
  shows "failure (reassign_step view_of i s) =
         (if get_cookie (heap s (handles (info s) ! i)) \<in> set (cookie (info s)) \<and>
             atlas (info s) = None
          then Some NullAtlas else failure s)"
proof -
  let ?c = "get_cookie (heap s (handles (info s) ! i))"
  let ?tab = "cookie (info s)"
  have at: "atlas (unused_slot i ?c (inherit_slot i ?c (info s))) = atlas (info s)"
    by (simp add: inherit_slot_def unused_slot_def swap_slots_def split: option.splits)
  have "?c = cookie (unused_slot i ?c (inherit_slot i ?c (info s))) ! i \<longleftrightarrow> ?c \<in> set ?tab"
  proof (cases "find_if (\<lambda>ck. ck = ?c) ?tab")
    case None
    then have nin: "\<forall>x\<in>set ?tab. x \<noteq> ?c" by (simp add: find_if_None)
    with assms have ne: "?tab ! i \<noteq> ?c" by (metis nth_mem)
    have z: "swap_at i z ?tab ! i \<in> set ?tab" if "z < length ?tab" for z
      using that assms by (simp add: nth_swap_at)
    from None nin ne assms show ?thesis
      by (auto simp: inherit_slot_def unused_slot_def find_if_Some z split: option.splits)
  next
    case (Some j)
    then have j: "j < length ?tab" "?tab ! j = ?c" by (simp_all add: find_if_Some)
    then have "?c \<in> set ?tab" by (metis nth_mem)
    with Some j assms show ?thesis
      by (auto simp: inherit_slot_def unused_slot_def nth_swap_at split: option.splits)
  qed
  with at show ?thesis
    by (auto simp: reassign_step_def Let_def split: option.splits)
qed








lemma failure_upto:
  assumes "n \<le> length (cookie (info s))"
  shows "failure (reassign_upto view_of n s) =
         (if atlas (info s) = None \<and>
             (\<exists>m<n. get_cookie (heap s (handles (info s) ! m))
                      \<in> set (cookie (info (reassign_upto view_of m s))))
          then Some NullAtlas else failure s)"
  using assms
proof (induction n)
  case 0
  then show ?case by simp
next
  case (Suc n)
  let ?s = "reassign_upto view_of n s"
  from Suc.prems have len: "n < length (cookie (info ?s))" by (simp add: upto_frame)
  from Suc have IH: "failure ?s =
         (if atlas (info s) = None \<and>
             (\<exists>m<n. get_cookie (heap s (handles (info s) ! m))
                      \<in> set (cookie (info (reassign_upto view_of m s))))
          then Some NullAtlas else failure s)" by simp
  show ?case
    unfolding reassign_upto_Suc step_failure[OF len] light_cookie_upto
    using IH by (auto simp: upto_frame less_Suc_eq)
qed

text \<open>
  A run completes exactly when the atlas image exists or every active light is marked dirty:
  the atlas handle is read for each light whose cookie is found in the table.
\<close>

lemma run_completes_iff:
  assumes "well_formed ty"
  shows "failure (reassign_indices view_of hp ty) = None \<longleftrightarrow>
         atlas ty \<noteq> None \<or>
         (\<forall>i<count ty. bit (partial_mask (reassign_indices view_of hp ty)) i)"
proof -
  let ?s = "\<lparr>heap = hp, info = ty, partial_mask = 0, failure = None\<rparr>"
  let ?in = "\<lambda>m. get_cookie (hp (handles ty ! m)) \<in> set (cookie (info (reassign_upto view_of m ?s)))"
  from assms have le: "count ty \<le> length (cookie (info ?s))" "count ty \<le> 32"
    by (simp_all add: well_formed_def capacity_def)
  from failure_upto[OF le(1), of view_of]
  have f: "failure (reassign_indices view_of hp ty) = None \<longleftrightarrow>
      \<not> (atlas ty = None \<and> (\<exists>m<count ty. ?in m))"
    by (simp add: reassign_indices_upto)
  have m: "bit (partial_mask (reassign_indices view_of hp ty)) i \<longleftrightarrow> i < count ty \<and> \<not> ?in i"
    for i
    using mask_upto[OF le, of view_of i] by (simp add: reassign_indices_upto)
  have a: "(\<forall>i<count ty. bit (partial_mask (reassign_indices view_of hp ty)) i) \<longleftrightarrow>
      \<not> (\<exists>m<count ty. ?in m)"
    unfolding m by blast
  show ?thesis unfolding f a by simp
qed





section \<open>The force-all-dirty override\<close>

lemma atlas_reassign_indices [simp]: "atlas (info (reassign_indices view_of hp ty)) = atlas ty"
  by (simp add: reassign_indices_upto upto_frame)

text \<open>
  Two lights whose cookies are still in the table although the atlas image has been released,
  as after shadows were switched off for a frame: the cookies are kept, the handle is reset.
\<close>

lemma matched_light_without_atlas:
  "failure (reassign_indices (\<lambda>a. ()) store_by_cookie (two_displaced_lights\<lparr>atlas := None\<rparr>)) =
     Some NullAtlas"
  by code_simp

text \<open>
  Claim C4, as the code has it. When the atlas image does not exist yet or the
  force-shadow-update flag is set, and the run of \<^verbatim>\<open>reassign_indices\<close> that comes first
  completes, the dirty mask used for shadow rendering has every bit set and the function
  does not return early. Reassignment has run before the mask is replaced: the bookkeeping
  and the light bindings are the ones \<^verbatim>\<open>reassign_indices\<close> leaves.
\<close>

theorem forced_update_marks_all_slots:
  assumes "atlas ty = None \<or> force_update_shadows"
    and "failure (reassign_indices view_of hp ty) = None"
  shows "partial_mask (fst (render_atlas_mask force_update_shadows view_of hp ty)) = NOT 0 \<and>
         (\<forall>i<32. bit (partial_mask (fst (render_atlas_mask force_update_shadows view_of hp ty))) i) \<and>
         \<not> snd (render_atlas_mask force_update_shadows view_of hp ty) \<and>
         info (fst (render_atlas_mask force_update_shadows view_of hp ty)) =
           info (reassign_indices view_of hp ty) \<and>
         heap (fst (render_atlas_mask force_update_shadows view_of hp ty)) =
           heap (reassign_indices view_of hp ty) \<and>
         failure (fst (render_atlas_mask force_update_shadows view_of hp ty)) = None"
  using assms by (auto simp: render_atlas_mask_def Let_def bit_not_iff)

theorem forced_update_marks_all_slots_witness:
  "failure (reassign_indices (\<lambda>a. ()) store_by_cookie two_displaced_lights) = None \<and>
   partial_mask (fst (render_atlas_mask True (\<lambda>a. ()) store_by_cookie two_displaced_lights)) = NOT 0 \<and>
   index_remap (info (fst (render_atlas_mask True (\<lambda>a. ()) store_by_cookie two_displaced_lights))) =
     index_remap (info (reassign_indices (\<lambda>a. ()) store_by_cookie two_displaced_lights)) \<and>
   atlas first_frame = None \<and>
   failure (reassign_indices (\<lambda>a. ()) store_by_cookie first_frame) = None \<and>
   partial_mask (fst (render_atlas_mask False (\<lambda>a. ()) store_by_cookie first_frame)) = NOT 0 \<and>
   \<not> snd (render_atlas_mask False (\<lambda>a. ()) store_by_cookie first_frame)"
proof -
  have f: "failure (reassign_indices (\<lambda>a. ()) store_by_cookie two_displaced_lights) = None"
    by code_simp
  have g: "failure (reassign_indices (\<lambda>a. ()) store_by_cookie first_frame) = None"
    by code_simp
  have n: "atlas first_frame = None" by (simp add: first_frame_def)
  show ?thesis
    using forced_update_marks_all_slots[of two_displaced_lights True "\<lambda>a. ()" store_by_cookie]
      forced_update_marks_all_slots[of first_frame False "\<lambda>a. ()" store_by_cookie] f g n
    by simp
qed

text \<open>
  Claim C4 as stated says that the cookie search, the empty-slot search and the selective
  marking and binding are bypassed. With the force flag set, the slot of the second light is
  still swapped (the remap table changes) and the light is still bound to its cached
  transform by reassignment.
\<close>

theorem forced_update_bypasses_reassignment_counterexample:
  "partial_mask (fst (render_atlas_mask True (\<lambda>a. ()) store_by_cookie two_displaced_lights)) = NOT 0 \<and>
   index_remap two_displaced_lights = [0, 1, 2, 3] \<and>
   index_remap (info (fst (render_atlas_mask True (\<lambda>a. ()) store_by_cookie two_displaced_lights))) =
     [3, 0, 2, 1] \<and>
   shadow_info (store_by_cookie 7) = None \<and>
   shadow_info (heap (fst (render_atlas_mask True (\<lambda>a. ()) store_by_cookie two_displaced_lights)) 7) =
     Some ((), 10)"
  by code_simp

section \<open>Properties of the light-set builder\<close>

lemma push_light_ok:
  "count ty < capacity ty \<Longrightarrow>
   push_light li h ty = Inr (ty\<lparr>lights := (lights ty)[count ty := li],
                   handles := (handles ty)[count ty := h], count := Suc (count ty)\<rparr>)"
  by (simp add: push_light_def)

lemma gathered_skip:
  assumes "gathered cap ty0 ty hs ls" "length hs = length ls" "\<not> count ty < cap"
  shows "gathered cap ty0 ty (hs @ [h]) (ls @ [l])"
  using assms by (auto simp: gathered_def min_def split: if_splits)

lemma gathered_push:
  assumes "gathered cap ty0 ty hs ls" "length hs = length ls" "count ty < cap"
    and "cap \<le> capacity ty0" "length (handles ty0) = capacity ty0" "length (lights ty0) = capacity ty0"
  shows "gathered cap ty0
           (ty\<lparr>lights := (lights ty)[count ty := l], handles := (handles ty)[count ty := h],
               count := Suc (count ty)\<rparr>) (hs @ [h]) (ls @ [l])"
proof -
  from assms have c: "count ty = length hs" "length hs < cap"
    by (auto simp: gathered_def min_def split: if_splits)
  from assms c have len: "length hs < length (handles ty)" "length ls < length (lights ty)"
    by (auto simp: gathered_def)
  from assms c have t: "take (length hs) (handles ty) = hs" "take (length ls) (lights ty) = ls"
    by (auto simp: gathered_def)
  have "take (Suc (length hs)) ((handles ty)[length hs := h]) = hs @ [h]"
    using len t by (simp add: take_Suc_conv_app_nth)
  moreover have "take (Suc (length ls)) ((lights ty)[length ls := l]) = ls @ [l]"
    using len t by (simp add: take_Suc_conv_app_nth)
  ultimately show ?thesis using assms c
    by (auto simp: gathered_def capacity_def min_def)
qed

lemma refresh_lights_snoc:
  "refresh_lights intersects get_shader_info (es @ [e]) cl =
     (case refresh_lights intersects get_shader_info es cl of
        Inl f \<Rightarrow> Inl f
      | Inr cl' \<Rightarrow> refresh_light intersects get_shader_info e cl')"
  by (induction es arbitrary: cl) (auto split: sum.splits)

lemma cleared_snoc_hidden:
  "\<not> intersects (world_aabb e) \<Longrightarrow> cleared intersects (es @ [e]) hp = cleared intersects es hp"
  by (auto simp: cleared_def fun_eq_iff)

lemma cleared_snoc_visible:
  "intersects (world_aabb e) \<Longrightarrow>
   cleared intersects (es @ [e]) hp = set_shadow_info (cleared intersects es hp) (light e) None"
  by (auto simp: cleared_def fun_eq_iff set_shadow_info_def)

lemma cleared_type [simp]: "get_type (cleared intersects es hp h) = get_type (hp h)"
  by (simp add: cleared_def)

lemma cleared_object:
  "(set_shadow_info (cleared intersects es hp) h None) h = (hp h)\<lparr>shadow_info := None\<rparr>"
  by (simp add: cleared_def set_shadow_info_def)

lemma visible_lights_snoc:
  "visible_lights intersects hp k (es @ [e]) =
     (if intersects (world_aabb e) \<and> get_type (hp (light e)) = k
      then visible_lights intersects hp k es @ [e] else visible_lights intersects hp k es)"
  by (simp add: visible_lights_def)

lemma gather_step:
  assumes inv: "gather_inv intersects get_shader_info es cl cl'"
    and caps: "max_point_lights cl \<le> capacity (points cl)" "max_spot_lights cl \<le> capacity (spots cl)"
    and wf: "well_formed (points cl)" "well_formed (spots cl)"
  shows "\<exists>cl''. refresh_light intersects get_shader_info e cl' = Inr cl'' \<and>
           gather_inv intersects get_shader_info (es @ [e]) cl cl''"
proof (cases "intersects (world_aabb e)")
  case False
  with inv show ?thesis
    by (simp add: refresh_light_def gather_inv_def cleared_snoc_hidden visible_lights_snoc)
next
  case True
  let ?hp = "light_objects cl"
  let ?cl1 = "cl'\<lparr>light_objects := set_shadow_info (light_objects cl') (light e) None\<rparr>"
  from inv have st: "light_objects cl' = cleared intersects es ?hp" by (simp add: gather_inv_def)
  have ty: "get_type (light_objects cl' (light e)) = get_type (?hp (light e))"
    by (simp add: st)
  have obj: "light_objects ?cl1 (light e) = (?hp (light e))\<lparr>shadow_info := None\<rparr>"
    by (simp add: st cleared_object)
  have sh: "get_shader_info (light_objects ?cl1 (light e)) (world_transform e) =
      shader_info_of get_shader_info ?hp e"
    by (simp add: shader_info_of_def st cleared_object)
  from wf have lens: "length (handles (points cl)) = capacity (points cl)"
    "length (lights (points cl)) = capacity (points cl)"
    "length (handles (spots cl)) = capacity (spots cl)"
    "length (lights (spots cl)) = capacity (spots cl)"
    by (simp_all add: well_formed_def)
  from inv have gp: "gathered (max_point_lights cl) (points cl) (points cl')
       (map light (visible_lights intersects ?hp Point es))
       (map (shader_info_of get_shader_info ?hp) (visible_lights intersects ?hp Point es))"
    and gs: "gathered (max_spot_lights cl) (spots cl) (spots cl')
       (map light (visible_lights intersects ?hp Spot es))
       (map (shader_info_of get_shader_info ?hp) (visible_lights intersects ?hp Spot es))"
    and mx: "max_point_lights cl' = max_point_lights cl" "max_spot_lights cl' = max_spot_lights cl"
    by (simp_all add: gather_inv_def)
  show ?thesis
  proof (cases "get_type (?hp (light e))")
    case Spot
    show ?thesis
    proof (cases "count (spots cl') < max_spot_lights cl")
      case c: True
      from gs caps(2) c have "count (spots cl') < capacity (spots cl')"
        by (simp add: gathered_def)
      then have p: "push_light (shader_info_of get_shader_info ?hp e) (light e) (spots cl') =
          Inr ((spots cl')\<lparr>lights := (lights (spots cl'))[count (spots cl') := shader_info_of get_shader_info ?hp e],
                 handles := (handles (spots cl'))[count (spots cl') := light e],
                 count := Suc (count (spots cl'))\<rparr>)"
        by (rule push_light_ok)
      have g: "gathered (max_spot_lights cl) (spots cl)
           ((spots cl')\<lparr>lights := (lights (spots cl'))[count (spots cl') := shader_info_of get_shader_info ?hp e],
                 handles := (handles (spots cl'))[count (spots cl') := light e],
                 count := Suc (count (spots cl'))\<rparr>)
           (map light (visible_lights intersects ?hp Spot es) @ [light e])
           (map (shader_info_of get_shader_info ?hp) (visible_lights intersects ?hp Spot es)
              @ [shader_info_of get_shader_info ?hp e])"
        by (rule gathered_push[OF gs _ c caps(2) lens(3,4)]) simp
      show ?thesis
        using True Spot c p g gp mx ty sh st
        by (simp add: refresh_light_def Let_def gather_inv_def cleared_snoc_visible
            visible_lights_snoc)
    next
      case c: False
      have g: "gathered (max_spot_lights cl) (spots cl) (spots cl')
           (map light (visible_lights intersects ?hp Spot es) @ [light e])
           (map (shader_info_of get_shader_info ?hp) (visible_lights intersects ?hp Spot es)
              @ [shader_info_of get_shader_info ?hp e])"
        by (rule gathered_skip[OF gs _ c]) simp
      show ?thesis
        using True Spot c g gp mx ty st
        by (simp add: refresh_light_def Let_def gather_inv_def cleared_snoc_visible
            visible_lights_snoc)
    qed
  next
    case Point
    show ?thesis
    proof (cases "count (points cl') < max_point_lights cl")
      case c: True
      from gp caps(1) c have "count (points cl') < capacity (points cl')"
        by (simp add: gathered_def)
      then have p: "push_light (shader_info_of get_shader_info ?hp e) (light e) (points cl') =
          Inr ((points cl')\<lparr>lights := (lights (points cl'))[count (points cl') := shader_info_of get_shader_info ?hp e],
                 handles := (handles (points cl'))[count (points cl') := light e],
                 count := Suc (count (points cl'))\<rparr>)"
        by (rule push_light_ok)
      have g: "gathered (max_point_lights cl) (points cl)
           ((points cl')\<lparr>lights := (lights (points cl'))[count (points cl') := shader_info_of get_shader_info ?hp e],
                 handles := (handles (points cl'))[count (points cl') := light e],
                 count := Suc (count (points cl'))\<rparr>)
           (map light (visible_lights intersects ?hp Point es) @ [light e])
           (map (shader_info_of get_shader_info ?hp) (visible_lights intersects ?hp Point es)
              @ [shader_info_of get_shader_info ?hp e])"
        by (rule gathered_push[OF gp _ c caps(1) lens(1,2)]) simp
      show ?thesis
        using True Point c p g gs mx ty sh st
        by (simp add: refresh_light_def Let_def gather_inv_def cleared_snoc_visible
            visible_lights_snoc)
    next
      case c: False
      have g: "gathered (max_point_lights cl) (points cl) (points cl')
           (map light (visible_lights intersects ?hp Point es) @ [light e])
           (map (shader_info_of get_shader_info ?hp) (visible_lights intersects ?hp Point es)
              @ [shader_info_of get_shader_info ?hp e])"
        by (rule gathered_skip[OF gp _ c]) simp
      show ?thesis
        using True Point c g gs mx ty st
        by (simp add: refresh_light_def Let_def gather_inv_def cleared_snoc_visible
            visible_lights_snoc)
    qed
  qed
qed

lemma refresh_gathers:
  assumes "well_formed (points cl)" "well_formed (spots cl)"
    and "max_point_lights cl \<le> capacity (points cl)" "max_spot_lights cl \<le> capacity (spots cl)"
    and "count (points cl) = 0" "count (spots cl) = 0"
  shows "\<exists>cl'. refresh_lights intersects get_shader_info es cl = Inr cl' \<and>
           gather_inv intersects get_shader_info es cl cl'"
proof (induction es rule: rev_induct)
  case Nil
  show ?case using assms(5,6)
    by (simp add: gather_inv_def gathered_def visible_lights_def cleared_def)
next
  case (snoc e es)
  then obtain cl' where r: "refresh_lights intersects get_shader_info es cl = Inr cl'"
    and inv: "gather_inv intersects get_shader_info es cl cl'" by blast
  from gather_step[OF inv assms(3,4,1,2), of e] r show ?case
    by (simp add: refresh_lights_snoc)
qed

lemma gather_lights_culled:
  "culled_of_type hp Point (gather_lights F hp ms mp os sc pc list) =
     culled_of_type hp Point list @
     map (\<lambda>ob. (renderable ob, Some ob)) (take (mp - pc) (visible_scene_lights F hp Point os)) \<and>
   culled_of_type hp Spot (gather_lights F hp ms mp os sc pc list) =
     culled_of_type hp Spot list @
     map (\<lambda>ob. (renderable ob, Some ob)) (take (ms - sc) (visible_scene_lights F hp Spot os))"
proof (induction os arbitrary: sc pc list)
  case Nil
  then show ?case by (simp add: visible_scene_lights_def)
next
  case (Cons ob os)
  show ?case
  proof (cases "transform ob")
    case None
    then show ?thesis using Cons[of sc pc "list @ [(renderable ob, None)]"]
      by (simp add: visible_scene_lights_def culled_of_type_def)
  next
    case (Some w)
    show ?thesis
    proof (cases "F (aabb ob)")
      case False
      with Some show ?thesis using Cons[of sc pc list]
        by (simp add: visible_scene_lights_def)
    next
      case True
      show ?thesis
      proof (cases "get_type (hp (renderable ob))")
        case Spot
        show ?thesis
        proof (cases "sc \<ge> ms")
          case c: True
          with Some True Spot show ?thesis using Cons[of sc pc list]
            by (simp add: visible_scene_lights_def)
        next
          case c: False
          then have "ms - sc = Suc (ms - Suc sc)" by simp
          with c Some True Spot show ?thesis
            using Cons[of "Suc sc" pc "list @ [(renderable ob, Some ob)]"]
            by (simp add: visible_scene_lights_def culled_of_type_def)
        qed
      next
        case Point
        show ?thesis
        proof (cases "pc \<ge> mp")
          case c: True
          with Some True Point show ?thesis using Cons[of sc pc list]
            by (simp add: visible_scene_lights_def)
        next
          case c: False
          then have "mp - pc = Suc (mp - Suc pc)" by simp
          with c Some True Point show ?thesis
            using Cons[of sc "Suc pc" "list @ [(renderable ob, Some ob)]"]
            by (simp add: visible_scene_lights_def culled_of_type_def)
        qed
      qed
    qed
  qed
qed

lemma refresh_inv:
  assumes "well_formed (points cl)" "well_formed (spots cl)"
    and "max_point_lights cl \<le> capacity (points cl)" "max_spot_lights cl \<le> capacity (spots cl)"
  shows "\<exists>cl'. refresh intersects get_shader_info es cl = Inr cl' \<and>
           max_point_lights cl' = max_point_lights cl \<and>
           max_spot_lights cl' = max_spot_lights cl \<and>
           light_objects cl' = cleared intersects es (light_objects cl) \<and>
           active_handles (points cl') =
             map light (take (max_point_lights cl) (visible_lights intersects (light_objects cl) Point es)) \<and>
           active_lights (points cl') =
             map (shader_info_of get_shader_info (light_objects cl))
               (take (max_point_lights cl) (visible_lights intersects (light_objects cl) Point es)) \<and>
           active_handles (spots cl') =
             map light (take (max_spot_lights cl) (visible_lights intersects (light_objects cl) Spot es)) \<and>
           active_lights (spots cl') =
             map (shader_info_of get_shader_info (light_objects cl))
               (take (max_spot_lights cl) (visible_lights intersects (light_objects cl) Spot es))"
proof -
  let ?cl0 = "cl\<lparr>points := (points cl)\<lparr>count := 0\<rparr>, spots := (spots cl)\<lparr>count := 0\<rparr>\<rparr>"
  have "\<exists>cl'. refresh_lights intersects get_shader_info es ?cl0 = Inr cl' \<and>
           gather_inv intersects get_shader_info es ?cl0 cl'"
    using assms by (intro refresh_gathers) (simp_all add: well_formed_def capacity_def)
  then obtain cl' where r: "refresh_lights intersects get_shader_info es ?cl0 = Inr cl'"
    and inv: "gather_inv intersects get_shader_info es ?cl0 cl'" by blast
  from inv have g: "gathered (max_point_lights cl) (points ?cl0) (points cl')
       (map light (visible_lights intersects (light_objects cl) Point es))
       (map (shader_info_of get_shader_info (light_objects cl))
          (visible_lights intersects (light_objects cl) Point es))"
    "gathered (max_spot_lights cl) (spots ?cl0) (spots cl')
       (map light (visible_lights intersects (light_objects cl) Spot es))
       (map (shader_info_of get_shader_info (light_objects cl))
          (visible_lights intersects (light_objects cl) Spot es))"
    and o: "max_point_lights cl' = max_point_lights cl" "max_spot_lights cl' = max_spot_lights cl"
      "light_objects cl' = cleared intersects es (light_objects cl)"
    by (simp_all add: gather_inv_def)
  have a: "take (count ty) (handles ty) = map light (take cap vs) \<and>
           take (count ty) (lights ty) = map sh (take cap vs)"
    if "gathered cap ty0 ty (map light vs) (map sh vs)" for cap ty0 ty vs sh
    using that unfolding gathered_def take_map by blast
  from a[OF g(1)] a[OF g(2)] o show ?thesis
    by (simp add: refresh_def r active_handles_def active_lights_def)
qed

text \<open>
  Claim C5. With caps that fit the arrays, the gathering loop of the clusterer returns, and
  the active array of each kind holds the frustum-visible lights of that kind in
  scene-iteration order, cut at the kind's cap: the lights beyond the cap are in no active
  array. The scene's own gathering for the deferred path keeps, for each kind, the first
  lights up to the cap in the same order. With three visible point lights and a cap of two,
  the active point array holds the first two.
\<close>

theorem capped_gather_in_scene_order:
  assumes "well_formed (points cl)" "well_formed (spots cl)"
    and "max_point_lights cl \<le> capacity (points cl)" "max_spot_lights cl \<le> capacity (spots cl)"
  shows "\<not> isl (refresh intersects get_shader_info es cl) \<and>
         active_handles (points (projr (refresh intersects get_shader_info es cl))) =
           map light (take (max_point_lights cl) (visible_lights intersects (light_objects cl) Point es)) \<and>
         active_lights (points (projr (refresh intersects get_shader_info es cl))) =
           map (shader_info_of get_shader_info (light_objects cl))
             (take (max_point_lights cl) (visible_lights intersects (light_objects cl) Point es)) \<and>
         active_handles (spots (projr (refresh intersects get_shader_info es cl))) =
           map light (take (max_spot_lights cl) (visible_lights intersects (light_objects cl) Spot es)) \<and>
         active_lights (spots (projr (refresh intersects get_shader_info es cl))) =
           map (shader_info_of get_shader_info (light_objects cl))
             (take (max_spot_lights cl) (visible_lights intersects (light_objects cl) Spot es)) \<and>
         culled_of_type hp Point (gather_visible_positional_lights intersects_fast hp os [] max_spot max_point) =
           map (\<lambda>ob. (renderable ob, Some ob)) (take max_point (visible_scene_lights intersects_fast hp Point os)) \<and>
         culled_of_type hp Spot (gather_visible_positional_lights intersects_fast hp os [] max_spot max_point) =
           map (\<lambda>ob. (renderable ob, Some ob)) (take max_spot (visible_scene_lights intersects_fast hp Spot os))"
proof -
  from refresh_inv[OF assms, of intersects get_shader_info es]
  obtain cl' where "refresh intersects get_shader_info es cl = Inr cl'"
    "active_handles (points cl') =
       map light (take (max_point_lights cl) (visible_lights intersects (light_objects cl) Point es))"
    "active_lights (points cl') =
       map (shader_info_of get_shader_info (light_objects cl))
         (take (max_point_lights cl) (visible_lights intersects (light_objects cl) Point es))"
    "active_handles (spots cl') =
       map light (take (max_spot_lights cl) (visible_lights intersects (light_objects cl) Spot es))"
    "active_lights (spots cl') =
       map (shader_info_of get_shader_info (light_objects cl))
         (take (max_spot_lights cl) (visible_lights intersects (light_objects cl) Spot es))"
    by blast
  moreover from gather_lights_culled[of hp intersects_fast max_spot max_point os 0 0 "[]"]
  have "culled_of_type hp Point (gather_visible_positional_lights intersects_fast hp os [] max_spot max_point) =
           map (\<lambda>ob. (renderable ob, Some ob)) (take max_point (visible_scene_lights intersects_fast hp Point os))"
    "culled_of_type hp Spot (gather_visible_positional_lights intersects_fast hp os [] max_spot max_point) =
           map (\<lambda>ob. (renderable ob, Some ob)) (take max_spot (visible_scene_lights intersects_fast hp Spot os))"
    by (simp_all add: gather_visible_positional_lights_def culled_of_type_def)
  ultimately show ?thesis by simp
qed

text \<open>
  Claim C10. After the gathering loop every frustum-visible light has its shadow binding
  cleared, whether it was appended to an active array or dropped because the cap of its kind
  was reached.
\<close>

theorem visible_lights_lose_binding:
  assumes "well_formed (points cl)" "well_formed (spots cl)"
    and "max_point_lights cl \<le> capacity (points cl)" "max_spot_lights cl \<le> capacity (spots cl)"
    and "e \<in> set es" "intersects (world_aabb e)"
  shows "\<not> isl (refresh intersects get_shader_info es cl) \<and>
         shadow_info (light_objects (projr (refresh intersects get_shader_info es cl)) (light e)) = None"
proof -
  from refresh_inv[OF assms(1-4), of intersects get_shader_info es]
  obtain cl' where "refresh intersects get_shader_info es cl = Inr cl'"
    "light_objects cl' = cleared intersects es (light_objects cl)" by blast
  moreover have "light e \<in> light ` {e \<in> set es. intersects (world_aabb e)}"
    using assms(5,6) by blast
  ultimately show ?thesis by (simp add: cleared_def)
qed

theorem capped_gather_in_scene_order_witness:
  "well_formed (points capped_clusterer) \<and> well_formed (spots capped_clusterer) \<and>
   max_point_lights capped_clusterer \<le> capacity (points capped_clusterer) \<and>
   max_spot_lights capped_clusterer \<le> capacity (spots capped_clusterer) \<and>
   map light (visible_lights in_front bound_store Point five_lights) = [1, 3, 4] \<and>
   \<not> isl (refresh in_front (\<lambda>l w. get_cookie l) five_lights capped_clusterer) \<and>
   active_handles (points (projr (refresh in_front (\<lambda>l w. get_cookie l) five_lights capped_clusterer))) =
     [1, 3] \<and>
   active_handles (spots (projr (refresh in_front (\<lambda>l w. get_cookie l) five_lights capped_clusterer))) =
     [9] \<and>
   map fst (culled_of_type bound_store Point
      (gather_visible_positional_lights in_front bound_store five_scene_lights [] 4 2)) = [1, 3]"
proof -
  have w: "well_formed (points capped_clusterer)" "well_formed (spots capped_clusterer)"
    "max_point_lights capped_clusterer \<le> capacity (points capped_clusterer)"
    "max_spot_lights capped_clusterer \<le> capacity (spots capped_clusterer)"
    by (simp_all add: capped_clusterer_def four_slots_def well_formed_def capacity_def)
  have v: "map light (visible_lights in_front bound_store Point five_lights) = [1, 3, 4]"
    "map light (take (max_point_lights capped_clusterer)
       (visible_lights in_front (light_objects capped_clusterer) Point five_lights)) = [1, 3]"
    "map light (take (max_spot_lights capped_clusterer)
       (visible_lights in_front (light_objects capped_clusterer) Spot five_lights)) = [9]"
    "map fst (map (\<lambda>ob. (renderable ob, Some ob))
       (take 2 (visible_scene_lights in_front bound_store Point five_scene_lights))) = [1, 3]"
    by (simp_all add: visible_lights_def visible_scene_lights_def capped_clusterer_def
        five_lights_def five_scene_lights_def bound_store_def in_front_def)
  from capped_gather_in_scene_order[OF w, of in_front "\<lambda>l w. get_cookie l" five_lights
      bound_store in_front five_scene_lights 4 2] v w
  show ?thesis by simp
qed

theorem visible_lights_lose_binding_witness:
  "well_formed (points capped_clusterer) \<and> well_formed (spots capped_clusterer) \<and>
   max_point_lights capped_clusterer \<le> capacity (points capped_clusterer) \<and>
   max_spot_lights capped_clusterer \<le> capacity (spots capped_clusterer) \<and>
   \<lparr>light = 4, world_aabb = 1, world_transform = ()\<rparr> \<in> set five_lights \<and>
   in_front 1 \<and>
   shadow_info (light_objects capped_clusterer 4) = Some ((), 4) \<and>
   4 \<notin> set (active_handles (points (projr
         (refresh in_front (\<lambda>l w. get_cookie l) five_lights capped_clusterer)))) \<and>
   shadow_info (light_objects (projr
         (refresh in_front (\<lambda>l w. get_cookie l) five_lights capped_clusterer)) 4) = None"
proof -
  have w: "well_formed (points capped_clusterer)" "well_formed (spots capped_clusterer)"
    "max_point_lights capped_clusterer \<le> capacity (points capped_clusterer)"
    "max_spot_lights capped_clusterer \<le> capacity (spots capped_clusterer)"
    by (simp_all add: capped_clusterer_def four_slots_def well_formed_def capacity_def)
  have e: "\<lparr>light = 4, world_aabb = 1, world_transform = ()\<rparr> \<in> set five_lights"
    "in_front (world_aabb \<lparr>light = 4, world_aabb = 1, world_transform = ()\<rparr>)"
    by (simp_all add: five_lights_def in_front_def)
  have b: "shadow_info (light_objects capped_clusterer 4) = Some ((), 4)"
    by (simp add: capped_clusterer_def bound_store_def)
  have h: "4 \<notin> set (active_handles (points (projr
         (refresh in_front (\<lambda>l w. get_cookie l) five_lights capped_clusterer))))"
    by code_simp
  from visible_lights_lose_binding[where intersects = in_front
      and get_shader_info = "\<lambda>l w. get_cookie l", OF w e] w e b h
  show ?thesis by simp
qed

section \<open>Properties of the CPU cluster test\<close>

lemma trailing_zeroes_bit:
  assumes "w \<noteq> 0"
  shows "trailing_zeroes w < 32 \<and> bit w (trailing_zeroes w)"
proof -
  let ?tw = "takeWhile (\<lambda>n. \<not> bit w n) [0..<32]"
  from assms obtain n where n: "bit w n" by (auto simp: bit_eq_iff)
  then have "n < 32" using bit_imp_le_length[of w n] by simp
  with n have "\<not> (\<forall>x\<in>set [0..<32]. \<not> bit w x)" by auto
  then have "?tw \<noteq> [0..<32]" by (simp only: takeWhile_eq_all_conv not_False_eq_True)
  moreover have "?tw = take (length ?tw) [0..<32]" by (rule takeWhile_eq_take)
  ultimately have "length ?tw \<noteq> length [0..<32]" by (metis take_all order_refl)
  with length_takeWhile_le[of "\<lambda>n. \<not> bit w n" "[0..<32]"]
  have l: "length ?tw < length [0..<32]" by simp
  from nth_length_takeWhile[OF l] l show ?thesis
    by (simp add: trailing_zeroes_def)
qed

lemma bit_clear_bit: "bit (clear_bit i w) n \<longleftrightarrow> bit w n \<and> n \<noteq> i"
  by (auto simp: clear_bit_def bit_and_iff bit_not_iff bit_exp_iff dest: bit_imp_le_length)

lemma finite_bits: "finite {n. bit (w :: u32) n}"
proof -
  have "{n. bit w n} \<subseteq> {..<32}" using bit_imp_le_length[of w] by auto
  then show ?thesis by (rule finite_subset) simp
qed

lemma card_clear_bit:
  assumes "w \<noteq> 0"
  shows "card {n. bit (clear_bit (trailing_zeroes w) w) n} < card {n. bit w n}"
proof -
  have "{n. bit (clear_bit (trailing_zeroes w) w) n} = {n. bit w n} - {trailing_zeroes w}"
    by (auto simp: bit_clear_bit)
  moreover have "trailing_zeroes w \<in> {n. bit w n}" using trailing_zeroes_bit[OF assms] by simp
  then have "card ({n. bit w n} - {trailing_zeroes w}) < card {n. bit w n}"
    by (rule card_Diff1_less[OF finite_bits])
  ultimately show ?thesis by simp
qed

lemma bit_mask_loop:
  "bit (mask_loop inside pre_mask light_mask) n \<longleftrightarrow> bit light_mask n \<or> (bit pre_mask n \<and> inside n)"
proof (induction inside pre_mask light_mask rule: mask_loop.induct)
  case (1 inside pre_mask light_mask)
  show ?case
  proof (cases "pre_mask = 0")
    case True
    then show ?thesis by (simp add: mask_loop.simps[of inside pre_mask light_mask])
  next
    case False
    let ?i = "trailing_zeroes pre_mask"
    from trailing_zeroes_bit[OF False] have i: "?i < 32" "bit pre_mask ?i" by simp_all
    have b: "bit (push_bit ?i 1 :: u32) n \<longleftrightarrow> n = ?i" using i(1)
      by (auto simp: bit_exp_iff)
    show ?thesis
    proof (cases "inside ?i")
      case True
      with False 1(1)[OF False refl refl True] i b show ?thesis
        by (auto simp: mask_loop.simps[of inside pre_mask light_mask] Let_def bit_clear_bit bit_or_iff)
    next
      case n: False
      with False 1(2)[OF False refl refl n] i show ?thesis
        by (auto simp: mask_loop.simps[of inside pre_mask light_mask] Let_def bit_clear_bit)
    qed
  qed
qed

declare mask_loop.simps [simp del]

lemma and_absorb_iff: "(a :: u32) AND b = a \<longleftrightarrow> (\<forall>n. bit a n \<longrightarrow> bit b n)"
proof
  assume e: "a AND b = a"
  show "\<forall>n. bit a n \<longrightarrow> bit b n"
  proof (intro allI impI)
    fix n assume "bit a n"
    then have "bit (a AND b) n" by (simp add: e)
    then show "bit b n" by (simp add: bit_and_iff)
  qed
next
  assume "\<forall>n. bit a n \<longrightarrow> bit b n"
  then show "a AND b = a" by (intro bit_eqI) (auto simp: bit_and_iff)
qed

lemma mask_loop_within: "mask_loop inside pre_mask 0 AND pre_mask = mask_loop inside pre_mask 0"
  by (simp add: and_absorb_iff bit_mask_loop)

lemma cluster_lights_cpu_within:
  "fst (cluster_lights_cpu x y z state local_state scale pre_mask) AND fst pre_mask =
     fst (cluster_lights_cpu x y z state local_state scale pre_mask) \<and>
   snd (cluster_lights_cpu x y z state local_state scale pre_mask) AND snd pre_mask =
     snd (cluster_lights_cpu x y z state local_state scale pre_mask)"
  by (simp add: cluster_lights_cpu_def Let_def mask_loop_within)

lemma and_absorb_trans: "(a :: u32) AND b = a \<Longrightarrow> b AND c = b \<Longrightarrow> a AND c = a"
  by (metis and.assoc)

text \<open>
  Claim C9. The spot mask and the point mask returned by \<^verbatim>\<open>cluster_lights_cpu\<close> are
  absorbed by the corresponding components of the pre-mask. In the two-level build the fine
  test of a cell gets the coarse result of its block as pre-mask, so the mask of every fine
  cell is absorbed by the coarse result and by the original pre-mask, and a light whose bit
  the coarse test left clear is in no fine cell of the block.
\<close>

theorem fine_masks_within_coarse:
  "fst (cluster_lights_cpu x y z state local_state scale pre_mask) AND fst pre_mask =
     fst (cluster_lights_cpu x y z state local_state scale pre_mask) \<and>
   snd (cluster_lights_cpu x y z state local_state scale pre_mask) AND snd pre_mask =
     snd (cluster_lights_cpu x y z state local_state scale pre_mask) \<and>
   (\<forall>e\<in>set (cluster_block_cpu downsample state local_state pre_mask max_x max_y cx cy cz).
      fst (snd e) AND fst (cluster_lights_cpu cx cy cz state local_state (real downsample) pre_mask)
        = fst (snd e) \<and>
      snd (snd e) AND snd (cluster_lights_cpu cx cy cz state local_state (real downsample) pre_mask)
        = snd (snd e) \<and>
      fst (snd e) AND fst pre_mask = fst (snd e) \<and>
      snd (snd e) AND snd pre_mask = snd (snd e) \<and>
      (\<forall>i. \<not> bit (fst (cluster_lights_cpu cx cy cz state local_state (real downsample) pre_mask)) i
            \<longrightarrow> \<not> bit (fst (snd e)) i) \<and>
      (\<forall>i. \<not> bit (snd (cluster_lights_cpu cx cy cz state local_state (real downsample) pre_mask)) i
            \<longrightarrow> \<not> bit (snd (snd e)) i))"
proof -
  let ?res = "cluster_lights_cpu cx cy cz state local_state (real downsample) pre_mask"
  have coarse: "fst ?res AND fst pre_mask = fst ?res" "snd ?res AND snd pre_mask = snd ?res"
    using cluster_lights_cpu_within[of cx cy cz state local_state "real downsample" pre_mask]
    by simp_all
  have fine: "fst (snd e) AND fst ?res = fst (snd e) \<and> snd (snd e) AND snd ?res = snd (snd e)"
    if "e \<in> set (cluster_block_cpu downsample state local_state pre_mask max_x max_y cx cy cz)"
    for e
  proof (cases "fst ?res = 0 \<and> snd ?res = 0")
    case True
    with that show ?thesis by (auto simp: cluster_block_cpu_def Let_def)
  next
    case False
    with that obtain sx sy sz where
      "snd e = cluster_lights_cpu sx sy (sz + cz) state local_state 1 ?res"
      by (auto simp: cluster_block_cpu_def Let_def)
    then show ?thesis
      using cluster_lights_cpu_within[of sx sy "sz + cz" state local_state 1 ?res] by simp
  qed
  have "fst (snd e) AND fst pre_mask = fst (snd e) \<and> snd (snd e) AND snd pre_mask = snd (snd e) \<and>
      (\<forall>i. \<not> bit (fst ?res) i \<longrightarrow> \<not> bit (fst (snd e)) i) \<and>
      (\<forall>i. \<not> bit (snd ?res) i \<longrightarrow> \<not> bit (snd (snd e)) i)"
    if "e \<in> set (cluster_block_cpu downsample state local_state pre_mask max_x max_y cx cy cz)"
    for e
    using fine[OF that] coarse and_absorb_trans[of "fst (snd e)" "fst ?res" "fst pre_mask"]
      and_absorb_trans[of "snd (snd e)" "snd ?res" "snd pre_mask"]
    by (auto simp: and_absorb_iff)
  with fine cluster_lights_cpu_within[of x y z state local_state scale pre_mask]
  show ?thesis by blast
qed

lemma empty_pre_mask: "mask_loop inside 0 0 = 0"
  by (simp add: mask_loop.simps)

lemma unit_grid_points:
  "mask_loop (radial_inside unit_grid (cube_center_of 0 0 0 unit_grid first_cascade 1)
      (cube_radius first_cascade)) 3 0 = 1"
  by code_simp

lemma unit_grid_cell: "cluster_lights_cpu 0 0 0 unit_grid first_cascade 1 (0, 3) = (0, 1)"
  by (simp add: cluster_lights_cpu_def Let_def empty_pre_mask unit_grid_points)








lemma unit_grid_block:
  "cluster_lights_cpu 0 0 0 unit_grid first_cascade 2 (0, 3) = (0, 1)"
proof -
  have "mask_loop (radial_inside unit_grid (cube_center_of 0 0 0 unit_grid first_cascade 2)
      (cube_radius first_cascade * 2)) 3 0 = 1"
    by code_simp
  then show ?thesis by (simp add: cluster_lights_cpu_def Let_def empty_pre_mask)
qed

lemma unit_grid_fine_cell:
  "cluster_lights_cpu 0 0 0 unit_grid first_cascade 1 (0, 1) = (0, 1)"
proof -
  have "mask_loop (radial_inside unit_grid (cube_center_of 0 0 0 unit_grid first_cascade 1)
      (cube_radius first_cascade)) 1 0 = 1"
    by code_simp
  then show ?thesis by (simp add: cluster_lights_cpu_def Let_def empty_pre_mask)
qed

theorem fine_masks_within_coarse_witness:
  "((0, 0, 0), (0, 1)) \<in> set (cluster_block_cpu 2 unit_grid first_cascade (0, 3) 4 4 0 0 0) \<and>
   cluster_lights_cpu 0 0 0 unit_grid first_cascade 2 (0, 3) = (0, 1) \<and>
   snd (snd ((0 :: int, 0 :: int, 0 :: int), (0 :: u32, 1 :: u32))) AND
     snd (cluster_lights_cpu 0 0 0 unit_grid first_cascade 2 (0, 3)) = 1 \<and>
   \<not> bit (snd (snd ((0 :: int, 0 :: int, 0 :: int), (0 :: u32, 1 :: u32)))) 1"
proof -
  let ?fine = "\<lambda>(sx, sy, sz).
      ((sx, sy, sz), cluster_lights_cpu sx sy (sz + 0) unit_grid first_cascade 1 (0, 1))"
  have "(0, 0, 0) \<in> set (block_cells 0 0 2 2)" by (force simp: block_cells_def)
  then have "?fine (0, 0, 0) \<in> ?fine ` set (block_cells 0 0 2 2)" by (rule imageI)
  then have m: "((0, 0, 0), (0, 1)) \<in> set (cluster_block_cpu 2 unit_grid first_cascade (0, 3) 4 4 0 0 0)"
    using unit_grid_block unit_grid_fine_cell
    by (simp add: cluster_block_cpu_def Let_def)
  have c: "\<not> bit (snd (cluster_lights_cpu 0 0 0 unit_grid first_cascade 2 (0, 3))) 1"
    by (simp add: unit_grid_block)
  note th = fine_masks_within_coarse[of 0 0 0 unit_grid first_cascade 1 "(0, 3)" 2 4 4 0 0 0]
  from bspec[OF th[THEN conjunct2, THEN conjunct2] m] c m unit_grid_block
  show ?thesis by simp
qed

section \<open>Properties of the depth-bin partitioner\<close>














end
